theory Spec2Isabelle
  imports Complex_Main
begin

section \<open>QuickText Pro: the keystroke monitor\<close>

text \<open>
  This theory embeds the class \<open>KeyboardMonitor\<close> of \<open>quicktext_pro.py\<close>: its fields,
  \<open>on_press\<close>, \<open>on_release\<close>, \<open>check_for_expansion\<close> and \<open>expand_from_buffer\<close>.

  Conventions of the embedding:
  \<^item> a Python string is a \<open>string\<close>; a character is a code point below 256, and
    \<open>isspace\<close> and \<open>lower\<close> are Python's on that range;
  \<^item> a reading of \<open>time.time()\<close> is a \<open>real\<close> and is an argument of \<open>on_press\<close>;
  \<^item> the calls to the keyboard controller, to \<open>pyperclip\<close>, to \<open>time.sleep\<close> and the
    emission of the Qt signal are recorded, in program order, in a list of actions; they
    are taken to return normally, so the \<open>except\<close> clause of \<open>on_press\<close> is never entered;
  \<^item> \<open>on_press\<close> returns \<open>None\<close> or \<open>False\<close>: a \<open>bool option\<close>.
\<close>

subsection \<open>Strings\<close>

text \<open>
  \<open>str.isspace\<close> on one character: the controls 9 to 13 and 28 to 31, the space, and in the
  upper half the next-line control 133 and the no-break space 160. \<open>str.lower\<close> moves the
  capitals \<open>A\<close> to \<open>Z\<close> (65 to 90) and the accented capitals 192 to 222, the
  multiplication sign 215 apart, 32 places up, and keeps every other character; the
  length of the string stays.
\<close>

definition isspace :: "char \<Rightarrow> bool" where
  "isspace c \<longleftrightarrow>
     (let n = (of_char c :: nat)
      in (9 \<le> n \<and> n \<le> 13) \<or> (28 \<le> n \<and> n \<le> 32) \<or> n = 133 \<or> n = 160)"

definition lower_char :: "char \<Rightarrow> char" where
  "lower_char c =
     (let n = (of_char c :: nat)
      in if (65 \<le> n \<and> n \<le> 90) \<or> (192 \<le> n \<and> n \<le> 222 \<and> n \<noteq> 215)
         then char_of (n + 32) else c)"

definition str_lower :: "string \<Rightarrow> string" where
  "str_lower s = map lower_char s"

definition str_strip :: "string \<Rightarrow> string" where
  "str_strip s = rev (dropWhile isspace (rev (dropWhile isspace s)))"

text \<open>
  \<open>str.split()\<close> without a separator: the maximal runs of non-whitespace characters, in
  order. The second argument is the word being read.
\<close>

fun split_from :: "string \<Rightarrow> string \<Rightarrow> string list" where
  "split_from [] w = (if w = [] then [] else [w])"
| "split_from (c # cs) w =
     (if isspace c then (if w = [] then split_from cs [] else w # split_from cs [])
      else split_from cs (w @ [c]))"

definition str_split :: "string \<Rightarrow> string list" where
  "str_split s = split_from s []"

subsection \<open>Keys, actions and the monitor's fields\<close>

text \<open>
  A key delivered by the listener is a \<open>KeyCode\<close>, whose attribute \<open>char\<close> is a string or
  \<open>None\<close>, or a member of the enumeration \<open>Key\<close>, which has no attribute \<open>char\<close>. The
  members the monitor tells apart are named; \<open>Key_other\<close> stands for any other member. A
  \<open>KeyCode\<close> is equal to no member of \<open>Key\<close>.
\<close>

datatype key =
    KeyCode "string option"
  | Key_space | Key_enter | Key_tab | Key_backspace
  | Key_ctrl | Key_ctrl_l | Key_ctrl_r
  | Key_other

datatype action =
    Press key
  | Release key
  | Sleep real
  | Copy string
  | Emit string string

text \<open>
  The fields of \<open>KeyboardMonitor\<close> that \<open>on_press\<close> reads and writes. The fields \<open>listener\<close>
  and \<open>keyboard_controller\<close> are handles to the outside; what is done through them is in
  the list of actions.
\<close>

record monitor =
  is_running :: bool
  mode :: string
  shortcuts :: "string \<rightharpoonup> string"
  buffer :: string
  last_key_time :: real
  ctrl_pressed :: bool
  pending_expansion :: bool



definition set_mode :: "string \<Rightarrow> monitor \<Rightarrow> monitor" where
  "set_mode m s = s\<lparr>mode := m\<rparr>"


definition stop :: "monitor \<Rightarrow> monitor" where
  "stop s = s\<lparr>is_running := False\<rparr>"

subsection \<open>Match check and expansion\<close>

definition check_for_expansion :: "monitor \<Rightarrow> bool" where
  "check_for_expansion s =
     (let words = str_split (str_strip (buffer s))
      in if words = [] then False
         else let keyword = str_lower (last words)
              in keyword \<in> dom (shortcuts s))"

text \<open>
  The statements of the body of \<open>if keyword in self.shortcuts\<close>, in program order. All but
  the last are calls to the outside; the last one assigns the buffer.
\<close>

datatype stmt = Do action | Clear_buffer

definition expansion_body :: "string \<Rightarrow> string \<Rightarrow> stmt list" where
  "expansion_body keyword phrase =
     concat (replicate (length keyword)
       [Do (Press Key_backspace), Do (Release Key_backspace), Do (Sleep 0.01)])
     @ [Do (Copy phrase), Do (Sleep 0.05),
        Do (Press Key_ctrl), Do (Press (KeyCode (Some ''v''))), Do (Sleep 0.05),
        Do (Release (KeyCode (Some ''v''))), Do (Release Key_ctrl),
        Do (Emit keyword phrase),
        Clear_buffer]"

fun exec :: "action list \<times> monitor \<Rightarrow> stmt \<Rightarrow> action list \<times> monitor" where
  "exec (out, s) (Do a) = (out @ [a], s)"
| "exec (out, s) Clear_buffer = (out, s\<lparr>buffer := ''''\<rparr>)"

definition expand_from_buffer :: "monitor \<Rightarrow> action list \<times> monitor" where
  "expand_from_buffer s =
     (let words = str_split (str_strip (buffer s))
      in if words = [] then ([], s)
         else let keyword = str_lower (last words)
              in case shortcuts s keyword of
                   None \<Rightarrow> ([], s)
                 | Some phrase \<Rightarrow> foldl exec ([], s) (expansion_body keyword phrase))"

subsection \<open>Key events\<close>

definition delimiter :: "key \<Rightarrow> bool" where
  "delimiter k \<longleftrightarrow> k = Key_space \<or> k = Key_enter \<or> k = Key_tab"

text \<open>\<open>hasattr(key, 'char') and key.char\<close>: the text the key carries, when it is not empty.\<close>

fun key_char :: "key \<Rightarrow> string option" where
  "key_char (KeyCode (Some c)) = (if c = [] then None else Some c)"
| "key_char _ = None"

text \<open>The reset of the buffer after more than two seconds, and the new time stamp.\<close>

definition idle_reset :: "monitor \<Rightarrow> real \<Rightarrow> monitor" where
  "idle_reset s current_time =
     (if current_time - last_key_time s > 2 then s\<lparr>buffer := ''''\<rparr> else s)
       \<lparr>last_key_time := current_time\<rparr>"

text \<open>
  The handling of a press gives three things: what \<open>on_press\<close> returns, the actions it
  takes, and the monitor afterwards.
\<close>

abbreviation answer :: "bool option \<times> action list \<times> monitor \<Rightarrow> bool option" where
  "answer r \<equiv> fst r"

abbreviation actions :: "bool option \<times> action list \<times> monitor \<Rightarrow> action list" where
  "actions r \<equiv> fst (snd r)"

abbreviation after :: "bool option \<times> action list \<times> monitor \<Rightarrow> monitor" where
  "after r \<equiv> snd (snd r)"

definition hotkey_mode :: "monitor \<Rightarrow> key \<Rightarrow> bool option \<times> action list \<times> monitor" where
  "hotkey_mode s k =
     (if ctrl_pressed s \<and> k = Key_space then
        (let (out, s') = expand_from_buffer s in (None, out, s'))
      else case key_char k of
             Some c \<Rightarrow> (None, [], s\<lparr>buffer := buffer s @ c\<rparr>)
           | None \<Rightarrow>
               if k = Key_space then (None, [], s\<lparr>buffer := buffer s @ '' ''\<rparr>)
               else if k = Key_backspace \<and> length (buffer s) > 0
                 then (None, [], s\<lparr>buffer := butlast (buffer s)\<rparr>)
               else (None, [], s))"

definition auto_mode :: "monitor \<Rightarrow> key \<Rightarrow> bool option \<times> action list \<times> monitor" where
  "auto_mode s k =
     (case key_char k of
        Some c \<Rightarrow> (None, [], s\<lparr>buffer := buffer s @ c\<rparr>)
      | None \<Rightarrow>
          if delimiter k then
            (if check_for_expansion s then
               (let (out, s') = expand_from_buffer (s\<lparr>pending_expansion := True\<rparr>)
                in (Some False, out, s'))
             else (None, [], s\<lparr>buffer := ''''\<rparr>))
          else if k = Key_backspace \<and> length (buffer s) > 0
            then (None, [], s\<lparr>buffer := butlast (buffer s)\<rparr>)
          else (None, [], s))"

text \<open>
  What \<open>on_press\<close> does once the pending flag has let the key through: the clock is read
  (\<open>idle_reset\<close>), then the control keys are tracked and the rule of the mode is applied
  (\<open>dispatch\<close>).
\<close>

definition dispatch :: "monitor \<Rightarrow> key \<Rightarrow> bool option \<times> action list \<times> monitor" where
  "dispatch s k =
     (if k = Key_ctrl_l \<or> k = Key_ctrl_r then (None, [], s\<lparr>ctrl_pressed := True\<rparr>)
      else if mode s = ''hotkey'' then hotkey_mode s k
      else if mode s = ''auto'' then auto_mode s k
      else (None, [], s))"

definition handle_key :: "monitor \<Rightarrow> real \<Rightarrow> key \<Rightarrow> bool option \<times> action list \<times> monitor" where
  "handle_key s current_time k = dispatch (idle_reset s current_time) k"

definition on_press :: "monitor \<Rightarrow> real \<Rightarrow> key \<Rightarrow> bool option \<times> action list \<times> monitor" where
  "on_press s current_time k =
     (if \<not> is_running s then (None, [], s)
      else if pending_expansion s \<and> delimiter k
        then (Some False, [], s\<lparr>pending_expansion := False\<rparr>)
      else handle_key s current_time k)"

definition on_release :: "monitor \<Rightarrow> key \<Rightarrow> monitor" where
  "on_release s k =
     (if k = Key_ctrl_l \<or> k = Key_ctrl_r then s\<lparr>ctrl_pressed := False\<rparr> else s)"

subsection \<open>Sequences of events\<close>

text \<open>A press comes with the reading of the clock that \<open>on_press\<close> takes for it.\<close>

datatype event = Pressed real key | Released key

fun step :: "monitor \<Rightarrow> event \<Rightarrow> monitor" where
  "step s (Pressed t k) = after (on_press s t k)"
| "step s (Released k) = on_release s k"

definition feed :: "monitor \<Rightarrow> event list \<Rightarrow> monitor" where
  "feed s evs = foldl step s evs"

fun delimiter_press :: "event \<Rightarrow> bool" where
  "delimiter_press (Pressed t k) = delimiter k"
| "delimiter_press (Released k) = False"

subsection \<open>Vocabulary of the specification\<close>

text \<open>
  The candidate keyword of a buffer, the expression that \<open>check_for_expansion\<close> and
  \<open>expand_from_buffer\<close> both compute: the last whitespace-delimited token, lower-cased;
  \<open>None\<close> when the buffer has no token.
\<close>

definition candidate :: "string \<Rightarrow> string option" where
  "candidate b =
     (let words = str_split (str_strip b)
      in if words = [] then None else Some (str_lower (last words)))"

text \<open>The replay of the specification: erase, write the clipboard, paste, notify.\<close>

definition erase :: "nat \<Rightarrow> action list" where
  "erase n = concat (replicate n [Press Key_backspace, Release Key_backspace, Sleep 0.01])"

definition paste_chord :: "action list" where
  "paste_chord =
     [Press Key_ctrl, Press (KeyCode (Some ''v'')), Sleep 0.05,
      Release (KeyCode (Some ''v'')), Release Key_ctrl]"

definition replay :: "string \<Rightarrow> string \<Rightarrow> action list" where
  "replay keyword phrase =
     erase (length keyword) @ [Copy phrase, Sleep 0.05] @ paste_chord @ [Emit keyword phrase]"

fun is_emit :: "action \<Rightarrow> bool" where
  "is_emit (Emit _ _) = True"
| "is_emit _ = False"

fun is_copy :: "action \<Rightarrow> bool" where
  "is_copy (Copy _) = True"
| "is_copy _ = False"

text \<open>
  The text a sequence of keys leaves behind when only characters and Backspace are typed:
  each character is appended, each Backspace drops the last character, if there is one.
\<close>

fun type_key :: "string \<Rightarrow> key \<Rightarrow> string" where
  "type_key b (KeyCode None) = b"
| "type_key b (KeyCode (Some c)) = b @ c"
| "type_key b Key_backspace = butlast b"
| "type_key b _ = b"

fun typing_key :: "key \<Rightarrow> bool" where
  "typing_key (KeyCode _) = True"
| "typing_key Key_backspace = True"
| "typing_key _ = False"

fun press_times :: "event list \<Rightarrow> real list" where
  "press_times [] = []"
| "press_times (Pressed t k # evs) = t # press_times evs"
| "press_times (Released k # evs) = press_times evs"

fun pressed_keys :: "event list \<Rightarrow> key list" where
  "pressed_keys [] = []"
| "pressed_keys (Pressed t k # evs) = k # pressed_keys evs"
| "pressed_keys (Released k # evs) = pressed_keys evs"

text \<open>No two consecutive readings of the clock are more than two seconds apart.\<close>

fun gaps_ok :: "real list \<Rightarrow> bool" where
  "gaps_ok (t1 # t2 # ts) = (t2 - t1 \<le> 2 \<and> gaps_ok (t2 # ts))"
| "gaps_ok _ = True"

subsection \<open>Example states\<close>

text \<open>
  The default shortcut \<open>tady\<close> of the database, and a running monitor that holds it, with a
  given mode, buffer, pending flag and control flag; its last press was at time 0.
\<close>

definition snapshot :: "string \<rightharpoonup> string" where
  "snapshot = [''tady'' \<mapsto> ''Thank you very much in advance.'']"

definition engine :: "string \<Rightarrow> string \<Rightarrow> bool \<Rightarrow> bool \<Rightarrow> monitor" where
  "engine m b pending ctrl =
     \<lparr>is_running = True, mode = m, shortcuts = snapshot, buffer = b,
      last_key_time = 0, ctrl_pressed = ctrl, pending_expansion = pending\<rparr>"

text \<open>The four presses that type \<open>tady\<close>, all at time 1.\<close>

definition typed_tady :: "event list" where
  "typed_tady =
     [Pressed 1 (KeyCode (Some ''t'')), Pressed 1 (KeyCode (Some ''a'')),
      Pressed 1 (KeyCode (Some ''d'')), Pressed 1 (KeyCode (Some ''y''))]"

section \<open>Basic facts\<close>

subsection \<open>Words and candidates\<close>

lemma split_from_nonempty: "w \<in> set (split_from s acc) \<Longrightarrow> w \<noteq> []"
  by (induction s acc rule: split_from.induct) (auto split: if_splits)

lemma str_split_nonempty: "w \<in> set (str_split s) \<Longrightarrow> w \<noteq> []"
  unfolding str_split_def by (rule split_from_nonempty)

lemma length_str_lower: "length (str_lower s) = length s"
  by (simp add: str_lower_def)

lemma candidate_nonempty:
  assumes "candidate b = Some kw"
  shows "kw \<noteq> []"
proof -
  let ?ws = "str_split (str_strip b)"
  from assms have ne: "?ws \<noteq> []" and kw: "kw = str_lower (last ?ws)"
    by (auto simp: candidate_def Let_def split: if_splits)
  from ne have "last ?ws \<in> set ?ws" by simp
  then have "last ?ws \<noteq> []" by (rule str_split_nonempty)
  with kw show ?thesis by (simp add: str_lower_def)
qed

lemma candidate_empty: "candidate '''' = None"
  by (simp add: candidate_def str_split_def str_strip_def)

subsection \<open>The expansion\<close>

lemma foldl_exec_Do: "foldl exec (out, s) (map Do as) = (out @ as, s)"
  by (induction as arbitrary: out) simp_all

lemma expansion_body_replay:
  "expansion_body keyword phrase = map Do (replay keyword phrase) @ [Clear_buffer]"
  by (simp add: expansion_body_def replay_def paste_chord_def erase_def map_concat)

lemma run_expansion_body:
  "foldl exec ([], s) (expansion_body keyword phrase) = (replay keyword phrase, s\<lparr>buffer := ''''\<rparr>)"
  by (simp add: expansion_body_replay foldl_exec_Do)

lemma check_candidate:
  "check_for_expansion s \<longleftrightarrow> (\<exists>kw. candidate (buffer s) = Some kw \<and> kw \<in> dom (shortcuts s))"
  by (auto simp: check_for_expansion_def candidate_def Let_def)

lemma expand_match:
  "candidate (buffer s) = Some kw \<Longrightarrow> shortcuts s kw = Some phrase \<Longrightarrow>
   expand_from_buffer s = (replay kw phrase, s\<lparr>buffer := ''''\<rparr>)"
  by (auto simp: expand_from_buffer_def candidate_def Let_def run_expansion_body split: if_splits)

lemma expand_no_match:
  "\<not> check_for_expansion s \<Longrightarrow> expand_from_buffer s = ([], s)"
  by (auto simp: expand_from_buffer_def check_for_expansion_def Let_def split: option.splits)

lemma expand_cases:
  obtains (idle) "\<not> check_for_expansion s" "expand_from_buffer s = ([], s)"
  | (match) kw phrase where "check_for_expansion s" "candidate (buffer s) = Some kw"
      "shortcuts s kw = Some phrase"
      "expand_from_buffer s = (replay kw phrase, s\<lparr>buffer := ''''\<rparr>)"
proof (cases "check_for_expansion s")
  case False
  then show ?thesis using idle expand_no_match by blast
next
  case True
  then obtain kw phrase where "candidate (buffer s) = Some kw" "shortcuts s kw = Some phrase"
    by (auto simp: check_candidate)
  with True show ?thesis using match expand_match by blast
qed

lemma replay_nonempty: "replay kw phrase \<noteq> []"
  by (simp add: replay_def)

lemma check_empty_buffer: "buffer s = '''' \<Longrightarrow> \<not> check_for_expansion s"
  by (simp add: check_candidate candidate_empty)

lemma check_cong:
  "buffer s = buffer s' \<Longrightarrow> shortcuts s = shortcuts s' \<Longrightarrow>
   check_for_expansion s = check_for_expansion s'"
  by (simp add: check_for_expansion_def)

text \<open>The expansion leaves every field but the buffer as it finds it.\<close>

lemma expand_fields:
  "is_running (snd (expand_from_buffer s)) = is_running s"
  "mode (snd (expand_from_buffer s)) = mode s"
  "shortcuts (snd (expand_from_buffer s)) = shortcuts s"
  "last_key_time (snd (expand_from_buffer s)) = last_key_time s"
  "ctrl_pressed (snd (expand_from_buffer s)) = ctrl_pressed s"
  "pending_expansion (snd (expand_from_buffer s)) = pending_expansion s"
  by (cases s rule: expand_cases; simp)+

subsection \<open>One press\<close>

lemma idle_reset_fields:
  "is_running (idle_reset s t) = is_running s"
  "mode (idle_reset s t) = mode s"
  "shortcuts (idle_reset s t) = shortcuts s"
  "last_key_time (idle_reset s t) = t"
  "ctrl_pressed (idle_reset s t) = ctrl_pressed s"
  "pending_expansion (idle_reset s t) = pending_expansion s"
  "buffer (idle_reset s t) = (if t - last_key_time s > 2 then '''' else buffer s)"
  by (simp_all add: idle_reset_def)

lemma hotkey_mode_fields:
  "is_running (after (hotkey_mode s k)) = is_running s"
  "mode (after (hotkey_mode s k)) = mode s"
  "shortcuts (after (hotkey_mode s k)) = shortcuts s"
  "last_key_time (after (hotkey_mode s k)) = last_key_time s"
  "ctrl_pressed (after (hotkey_mode s k)) = ctrl_pressed s"
  "pending_expansion (after (hotkey_mode s k)) = pending_expansion s"
  by (simp_all add: hotkey_mode_def expand_fields split_beta split: option.splits)

lemma auto_mode_fields:
  "is_running (after (auto_mode s k)) = is_running s"
  "mode (after (auto_mode s k)) = mode s"
  "shortcuts (after (auto_mode s k)) = shortcuts s"
  "last_key_time (after (auto_mode s k)) = last_key_time s"
  "ctrl_pressed (after (auto_mode s k)) = ctrl_pressed s"
  by (simp_all add: auto_mode_def expand_fields split_beta split: option.splits)

lemma auto_mode_pending:
  "\<not> delimiter k \<Longrightarrow> pending_expansion (after (auto_mode s k)) = pending_expansion s"
  by (simp add: auto_mode_def split: option.splits)

lemma dispatch_fields:
  "is_running (after (dispatch s k)) = is_running s"
  "mode (after (dispatch s k)) = mode s"
  "shortcuts (after (dispatch s k)) = shortcuts s"
  "last_key_time (after (dispatch s k)) = last_key_time s"
  by (simp_all add: dispatch_def hotkey_mode_fields auto_mode_fields)

lemma dispatch_pending:
  "\<not> delimiter k \<Longrightarrow> pending_expansion (after (dispatch s k)) = pending_expansion s"
  by (simp add: dispatch_def hotkey_mode_fields auto_mode_pending)


lemma on_press_fields:
  "is_running (after (on_press s t k)) = is_running s"
  "mode (after (on_press s t k)) = mode s"
  "shortcuts (after (on_press s t k)) = shortcuts s"
  by (simp_all add: on_press_def handle_key_def dispatch_fields idle_reset_fields)

lemma on_press_pending:
  "\<not> delimiter k \<Longrightarrow> pending_expansion (after (on_press s t k)) = pending_expansion s"
  by (simp add: on_press_def handle_key_def dispatch_pending idle_reset_fields)


text \<open>A press that the pending flag lets through leaves its clock reading behind.\<close>

lemma on_press_last_key_time:
  "is_running s \<Longrightarrow> \<not> (pending_expansion s \<and> delimiter k) \<Longrightarrow>
   last_key_time (after (on_press s t k)) = t"
  by (auto simp: on_press_def handle_key_def dispatch_fields idle_reset_fields)

lemma on_release_fields:
  "is_running (on_release s k) = is_running s"
  "mode (on_release s k) = mode s"
  "shortcuts (on_release s k) = shortcuts s"
  "buffer (on_release s k) = buffer s"
  "last_key_time (on_release s k) = last_key_time s"
  "pending_expansion (on_release s k) = pending_expansion s"
  by (simp_all add: on_release_def)

subsection \<open>Sequences of events\<close>

lemma feed_Nil: "feed s [] = s"
  by (simp add: feed_def)

lemma feed_Cons: "feed s (e # evs) = feed (step s e) evs"
  by (simp add: feed_def)

lemma feed_append: "feed s (evs @ evs') = feed (feed s evs) evs'"
  by (simp add: feed_def)

lemma step_fields:
  "is_running (step s e) = is_running s"
  "mode (step s e) = mode s"
  "shortcuts (step s e) = shortcuts s"
  by (cases e; simp add: on_press_fields on_release_fields)+

lemma feed_fields:
  "is_running (feed s evs) = is_running s"
  "mode (feed s evs) = mode s"
  "shortcuts (feed s evs) = shortcuts s"
  by (induction evs arbitrary: s; simp add: feed_Nil feed_Cons step_fields)+

subsection \<open>Evaluation of the examples\<close>

lemmas string_eval =
  str_split_def str_strip_def str_lower_def isspace_def lower_char_def char_of_eq_iff

lemma candidate_please_tady: "candidate ''please tady'' = Some ''tady''"
  by (simp add: candidate_def string_eval)

lemma candidate_Tady: "candidate ''Tady'' = Some ''tady''"
  by (simp add: candidate_def string_eval)

lemma candidate_tady: "candidate ''tady'' = Some ''tady''"
  by (simp add: candidate_def string_eval)

lemma candidate_hello_world: "candidate ''hello world'' = Some ''world''"
  by (simp add: candidate_def string_eval)

lemma snapshot_tady: "snapshot ''tady'' = Some ''Thank you very much in advance.''"
  by (simp add: snapshot_def)

lemma snapshot_world: "snapshot ''world'' = None"
  by (simp add: snapshot_def)

lemma engine_fields:
  "is_running (engine m b p c)"
  "mode (engine m b p c) = m"
  "shortcuts (engine m b p c) = snapshot"
  "buffer (engine m b p c) = b"
  "last_key_time (engine m b p c) = 0"
  "ctrl_pressed (engine m b p c) = c"
  "pending_expansion (engine m b p c) = p"
  by (simp_all add: engine_def)

subsection \<open>Counting the actions of a replay\<close>

lemma erase_Suc:
  "erase (Suc n) = [Press Key_backspace, Release Key_backspace, Sleep 0.01] @ erase n"
  by (simp add: erase_def)

lemma erase_presses: "length (filter (\<lambda>a. a = Press Key_backspace) (erase n)) = n"
  by (induction n) (simp_all add: erase_Suc, simp add: erase_def)

lemma erase_releases: "length (filter (\<lambda>a. a = Release Key_backspace) (erase n)) = n"
  by (induction n) (simp_all add: erase_Suc, simp add: erase_def)

lemma erase_no_copy: "filter is_copy (erase n) = []"
  by (induction n) (simp_all add: erase_Suc, simp add: erase_def)

lemma erase_no_emit: "filter is_emit (erase n) = []"
  by (induction n) (simp_all add: erase_Suc, simp add: erase_def)

lemma replay_counts:
  "length (filter (\<lambda>a. a = Press Key_backspace) (replay kw phrase)) = length kw"
  "length (filter (\<lambda>a. a = Release Key_backspace) (replay kw phrase)) = length kw"
  "filter is_copy (replay kw phrase) = [Copy phrase]"
  "filter is_emit (replay kw phrase) = [Emit kw phrase]"
  by (simp_all add: replay_def paste_chord_def erase_presses erase_releases
      erase_no_copy erase_no_emit)

subsection \<open>A delimiter in auto mode\<close>

lemma delimiter_key_char: "delimiter k \<Longrightarrow> key_char k = None"
  by (auto simp: delimiter_def)

lemma delimiter_not_ctrl: "delimiter k \<Longrightarrow> k \<noteq> Key_ctrl_l \<and> k \<noteq> Key_ctrl_r"
  by (auto simp: delimiter_def)

lemma auto_delimiter:
  assumes "is_running s" and "mode s = ''auto''" and "\<not> pending_expansion s"
    and "delimiter k"
  shows "on_press s t k =
     (if check_for_expansion (idle_reset s t)
      then (Some False, fst (expand_from_buffer (idle_reset s t)),
            (idle_reset s t)\<lparr>pending_expansion := True, buffer := ''''\<rparr>)
      else (None, [], (idle_reset s t)\<lparr>buffer := ''''\<rparr>))"
proof (cases "check_for_expansion (idle_reset s t)")
  case False
  with assms show ?thesis
    by (simp add: on_press_def handle_key_def dispatch_def auto_mode_def idle_reset_fields
        delimiter_key_char delimiter_not_ctrl)
next
  case True
  let ?p = "(idle_reset s t)\<lparr>pending_expansion := True\<rparr>"
  from True have "check_for_expansion ?p"
    by (simp add: check_candidate)
  then obtain kw phrase where "candidate (buffer ?p) = Some kw" "shortcuts ?p kw = Some phrase"
    by (auto simp: check_candidate)
  then have "expand_from_buffer ?p = (replay kw phrase, ?p\<lparr>buffer := ''''\<rparr>)"
    and "expand_from_buffer (idle_reset s t) = (replay kw phrase, (idle_reset s t)\<lparr>buffer := ''''\<rparr>)"
    by (simp_all add: expand_match)
  with assms True show ?thesis
    by (simp add: on_press_def handle_key_def dispatch_def auto_mode_def idle_reset_fields
        delimiter_key_char delimiter_not_ctrl)
qed

lemma idle_reset_within:
  "t - last_key_time s \<le> 2 \<Longrightarrow> idle_reset s t = s\<lparr>last_key_time := t\<rparr>"
  by (simp add: idle_reset_def)

lemma idle_reset_check:
  "\<not> check_for_expansion s \<Longrightarrow> \<not> check_for_expansion (idle_reset s t)"
  by (simp add: check_candidate idle_reset_fields candidate_empty)

lemma auto_match_step:
  assumes "is_running s" and "mode s = ''auto''" and "\<not> pending_expansion s"
    and "t - last_key_time s \<le> 2" and "delimiter k"
    and "candidate (buffer s) = Some kw" and "shortcuts s kw = Some phrase"
  shows "on_press s t k =
      (Some False, replay kw phrase,
       s\<lparr>buffer := '''', last_key_time := t, pending_expansion := True\<rparr>)"
proof -
  let ?s1 = "idle_reset s t"
  from assms(4) have s1: "?s1 = s\<lparr>last_key_time := t\<rparr>"
    by (rule idle_reset_within)
  from assms(6,7) have "candidate (buffer ?s1) = Some kw" "shortcuts ?s1 kw = Some phrase"
    by (simp_all add: s1)
  then have "check_for_expansion ?s1"
    and "expand_from_buffer ?s1 = (replay kw phrase, ?s1\<lparr>buffer := ''''\<rparr>)"
    by (auto simp: check_candidate expand_match)
  with auto_delimiter [OF assms(1,2,3,5), of t] show ?thesis
    by (simp add: s1)
qed

lemma replay_nonempty': "[] \<noteq> replay kw phrase"
  by (simp add: replay_def)

lemma tady_in_snapshot: "''tady'' \<in> dom snapshot"
  by (simp add: snapshot_def)

subsection \<open>The answer and the actions depend on the buffer through its candidate only\<close>







subsection \<open>The pending flag along a sequence\<close>

lemma step_pending:
  "\<not> delimiter_press e \<Longrightarrow> pending_expansion (step s e) = pending_expansion s"
  by (cases e) (simp_all add: on_press_pending on_release_fields)

lemma feed_pending:
  "\<forall>e\<in>set evs. \<not> delimiter_press e \<Longrightarrow>
   pending_expansion (feed s evs) = pending_expansion s"
  by (induction evs arbitrary: s) (simp_all add: feed_Nil feed_Cons step_pending)



lemma hotkey_delimiter_answer: "answer (hotkey_mode s k) = None"
  by (simp add: hotkey_mode_def split_beta split: option.splits)

lemma auto_delimiter_answer:
  "delimiter k \<Longrightarrow> answer (auto_mode s k) = Some False \<longleftrightarrow> check_for_expansion s"
  by (simp add: auto_mode_def delimiter_key_char split_beta)

lemma dispatch_delimiter_answer:
  "delimiter k \<Longrightarrow>
   answer (dispatch s k) = Some False \<longleftrightarrow> mode s = ''auto'' \<and> check_for_expansion s"
  by (auto simp: dispatch_def hotkey_delimiter_answer auto_delimiter_answer delimiter_not_ctrl)

lemma on_press_processed:
  "is_running s \<Longrightarrow> \<not> (pending_expansion s \<and> delimiter k) \<Longrightarrow>
   on_press s t k = dispatch (idle_reset s t) k"
  by (auto simp: on_press_def handle_key_def)

subsection \<open>Hotkey mode\<close>




lemmas press_eval =
  on_press_def handle_key_def dispatch_def hotkey_mode_def auto_mode_def idle_reset_def
  on_release_def delimiter_def

subsection \<open>Typing\<close>

lemma dispatch_type_key:
  assumes "mode s = ''hotkey'' \<or> mode s = ''auto''" and "typing_key k"
  shows "buffer (after (dispatch s k)) = type_key (buffer s) k"
proof (cases k)
  case (KeyCode c)
  show ?thesis
  proof (cases c)
    case None
    with KeyCode assms(1) show ?thesis
      by (auto simp: dispatch_def hotkey_mode_def auto_mode_def delimiter_def)
  next
    case (Some x)
    with KeyCode assms(1) show ?thesis
      by (auto simp: dispatch_def hotkey_mode_def auto_mode_def delimiter_def)
  qed
next
  case Key_backspace
  with assms(1) show ?thesis
    by (auto simp: dispatch_def hotkey_mode_def auto_mode_def delimiter_def)
qed (use assms(2) in simp_all)

lemma type_key_step:
  assumes "is_running s" and "mode s = ''hotkey'' \<or> mode s = ''auto''" and "typing_key k"
    and "t - last_key_time s \<le> 2 \<or> buffer s = ''''"
  shows "buffer (after (on_press s t k)) = type_key (buffer s) k"
proof -
  from assms(3) have nd: "\<not> delimiter k"
    by (cases k) (simp_all add: delimiter_def)
  from assms(4) have b: "buffer (idle_reset s t) = buffer s"
    by (auto simp: idle_reset_fields)
  have p: "on_press s t k = dispatch (idle_reset s t) k"
    using assms(1) nd by (simp add: on_press_processed)
  have "mode (idle_reset s t) = ''hotkey'' \<or> mode (idle_reset s t) = ''auto''"
    using assms(2) by (simp add: idle_reset_fields)
  from dispatch_type_key [OF this assms(3)] show ?thesis
    by (simp only: p b)
qed

lemma typing_key_last_key_time:
  "is_running s \<Longrightarrow> typing_key k \<Longrightarrow> last_key_time (after (on_press s t k)) = t"
  by (rule on_press_last_key_time) (cases k; simp add: delimiter_def)+

lemma typing_feed:
  assumes "is_running s" and "mode s = ''hotkey'' \<or> mode s = ''auto''"
    and "\<forall>k\<in>set (pressed_keys evs). typing_key k"
    and "gaps_ok (last_key_time s # press_times evs)"
  shows "buffer (feed s evs) = foldl type_key (buffer s) (pressed_keys evs)"
  using assms
proof (induction evs arbitrary: s)
  case Nil
  then show ?case by (simp add: feed_Nil)
next
  case (Cons e evs)
  show ?case
  proof (cases e)
    case (Pressed t k)
    let ?s' = "after (on_press s t k)"
    from Cons.prems Pressed have k: "typing_key k" and near: "t - last_key_time s \<le> 2"
      and rest: "gaps_ok (t # press_times evs)"
      by simp_all
    have "buffer ?s' = type_key (buffer s) k"
      using Cons.prems(1,2) k near by (simp add: type_key_step)
    moreover have "last_key_time ?s' = t"
      using Cons.prems(1) k by (rule typing_key_last_key_time)
    moreover have "is_running ?s'" "mode ?s' = ''hotkey'' \<or> mode ?s' = ''auto''"
      using Cons.prems(1,2) by (simp_all add: on_press_fields)
    ultimately have "buffer (feed ?s' evs)
        = foldl type_key (type_key (buffer s) k) (pressed_keys evs)"
      using Cons.IH [of ?s'] Cons.prems(3) Pressed rest by simp
    with Pressed show ?thesis by (simp add: feed_Cons)
  next
    case (Released k)
    with Cons.prems have "buffer (feed (on_release s k) evs)
        = foldl type_key (buffer (on_release s k)) (pressed_keys evs)"
      by (intro Cons.IH) (simp_all add: on_release_fields)
    with Released show ?thesis by (simp add: feed_Cons on_release_fields)
  qed
qed

lemma typing_feed_empty:
  assumes "is_running s" and "mode s = ''hotkey'' \<or> mode s = ''auto''" and "buffer s = ''''"
    and "\<forall>k\<in>set (pressed_keys evs). typing_key k"
    and "gaps_ok (press_times evs)"
  shows "buffer (feed s evs) = foldl type_key '''' (pressed_keys evs)"
  using assms
proof (induction evs arbitrary: s)
  case Nil
  then show ?case by (simp add: feed_Nil)
next
  case (Cons e evs)
  show ?case
  proof (cases e)
    case (Pressed t k)
    let ?s' = "after (on_press s t k)"
    from Cons.prems Pressed have k: "typing_key k" and rest: "gaps_ok (t # press_times evs)"
      and keys: "\<forall>k\<in>set (pressed_keys evs). typing_key k"
      by simp_all
    have b: "buffer ?s' = type_key '''' k"
      using Cons.prems(1,2,3) k by (simp add: type_key_step)
    have t: "last_key_time ?s' = t"
      using Cons.prems(1) k by (rule typing_key_last_key_time)
    have "is_running ?s'" "mode ?s' = ''hotkey'' \<or> mode ?s' = ''auto''"
      using Cons.prems(1,2) by (simp_all add: on_press_fields)
    then have "buffer (feed ?s' evs) = foldl type_key (buffer ?s') (pressed_keys evs)"
      using keys rest by (intro typing_feed) (simp_all add: t)
    with Pressed b show ?thesis by (simp add: feed_Cons)
  next
    case (Released k)
    with Cons.prems have "buffer (feed (on_release s k) evs)
        = foldl type_key '''' (pressed_keys evs)"
      by (intro Cons.IH) (simp_all add: on_release_fields)
    with Released show ?thesis by (simp add: feed_Cons)
  qed
qed

lemma foldl_type_key_chars:
  "foldl type_key b (map (\<lambda>c. KeyCode (Some c)) cs) = b @ concat cs"
  by (induction cs arbitrary: b) simp_all

lemma pressed_keys_snoc: "pressed_keys (evs @ [Pressed t k]) = pressed_keys evs @ [k]"
  by (induction evs rule: pressed_keys.induct) simp_all

section \<open>The claims\<close>

subsection \<open>Claim C1\<close>

text \<open>
  C1, as stated, does not hold for every state of the monitor in auto mode whose buffer
  ends in a keyword. After one expansion the pending flag is set; when \<open>tady\<close> is typed
  again, the next Space is consumed by the flag: the flag becomes false, nothing is erased
  or pasted, nobody is notified and the buffer stays. And when Space comes more than two
  seconds after the last press, the buffer is reset first, nothing is expanded and the
  delimiter is not suppressed.
\<close>

theorem auto_match_counterexample:
  "feed (engine ''auto'' ''tady'' False False) (Pressed 1 Key_space # typed_tady)
     = (engine ''auto'' ''tady'' True False)\<lparr>last_key_time := 1\<rparr>
   \<and> mode ((engine ''auto'' ''tady'' True False)\<lparr>last_key_time := 1\<rparr>) = ''auto''
   \<and> candidate (buffer ((engine ''auto'' ''tady'' True False)\<lparr>last_key_time := 1\<rparr>))
       = Some ''tady''
   \<and> shortcuts ((engine ''auto'' ''tady'' True False)\<lparr>last_key_time := 1\<rparr>) ''tady''
       = Some ''Thank you very much in advance.''
   \<and> on_press ((engine ''auto'' ''tady'' True False)\<lparr>last_key_time := 1\<rparr>) 2 Key_space
       = (Some False, [], (engine ''auto'' ''tady'' False False)\<lparr>last_key_time := 1\<rparr>)
   \<and> candidate (buffer (engine ''auto'' ''please tady'' False False)) = Some ''tady''
   \<and> on_press (engine ''auto'' ''please tady'' False False) 3 Key_space
       = (None, [], (engine ''auto'' '''' False False)\<lparr>last_key_time := 3\<rparr>)"
proof -
  let ?s = "engine ''auto'' ''tady'' False False"
  let ?p = "(engine ''auto'' ''tady'' True False)\<lparr>last_key_time := 1\<rparr>"
  have "on_press ?s 1 Key_space =
      (Some False, replay ''tady'' ''Thank you very much in advance.'',
       ?s\<lparr>buffer := '''', last_key_time := 1, pending_expansion := True\<rparr>)"
    by (rule auto_match_step)
      (simp_all add: engine_fields delimiter_def candidate_tady snapshot_tady)
  then have "step ?s (Pressed 1 Key_space)
      = (engine ''auto'' '''' True False)\<lparr>last_key_time := 1\<rparr>"
    by (simp add: engine_def)
  moreover have "feed ((engine ''auto'' '''' True False)\<lparr>last_key_time := 1\<rparr>) typed_tady = ?p"
    by (simp add: feed_def typed_tady_def engine_def press_eval)
  ultimately have a: "feed ?s (Pressed 1 Key_space # typed_tady) = ?p"
    by (simp only: feed_Cons)
  have b: "mode ?p = ''auto''" "candidate (buffer ?p) = Some ''tady''"
    "shortcuts ?p ''tady'' = Some ''Thank you very much in advance.''"
    by (simp_all add: engine_def candidate_tady snapshot_tady)
  have c: "on_press ?p 2 Key_space
      = (Some False, [], (engine ''auto'' ''tady'' False False)\<lparr>last_key_time := 1\<rparr>)"
    by (simp add: engine_def on_press_def delimiter_def)
  have d: "candidate (buffer (engine ''auto'' ''please tady'' False False)) = Some ''tady''"
    by (simp add: engine_fields candidate_please_tady)
  have e: "on_press (engine ''auto'' ''please tady'' False False) 3 Key_space
      = (None, [], (engine ''auto'' '''' False False)\<lparr>last_key_time := 3\<rparr>)"
    by (simp add: engine_def press_eval check_candidate candidate_empty)
  from a b c d e show ?thesis by blast
qed

text \<open>
  C1, amended. In auto mode, for a running monitor with no expansion pending, whose
  buffer has the candidate keyword \<open>kw\<close> mapped to \<open>phrase\<close>, a press of Space, Enter or Tab
  that comes no more than two seconds after the last press is answered with \<open>False\<close> (the
  delimiter is suppressed); its actions are the replay of \<open>kw\<close> and \<open>phrase\<close>, with exactly
  \<open>length kw\<close> Backspace presses and as many releases, one clipboard write, of \<open>phrase\<close>,
  and one notification, of \<open>kw\<close> and \<open>phrase\<close>; afterwards the pending flag is set and the
  buffer is empty.
\<close>

theorem auto_match_expands:
  assumes "is_running s" and "mode s = ''auto''" and "\<not> pending_expansion s"
    and "t - last_key_time s \<le> 2" and "delimiter k"
    and "candidate (buffer s) = Some kw" and "shortcuts s kw = Some phrase"
  shows "on_press s t k =
      (Some False, replay kw phrase,
       s\<lparr>buffer := '''', last_key_time := t, pending_expansion := True\<rparr>)
    \<and> length (filter (\<lambda>a. a = Press Key_backspace) (actions (on_press s t k))) = length kw
    \<and> length (filter (\<lambda>a. a = Release Key_backspace) (actions (on_press s t k))) = length kw
    \<and> filter is_copy (actions (on_press s t k)) = [Copy phrase]
    \<and> filter is_emit (actions (on_press s t k)) = [Emit kw phrase]"
proof -
  have "on_press s t k =
      (Some False, replay kw phrase,
       s\<lparr>buffer := '''', last_key_time := t, pending_expansion := True\<rparr>)"
    using assms by (rule auto_match_step)
  then show ?thesis by (simp add: replay_counts)
qed

theorem auto_match_expands_witness:
  "is_running (engine ''auto'' ''please tady'' False False)
   \<and> mode (engine ''auto'' ''please tady'' False False) = ''auto''
   \<and> \<not> pending_expansion (engine ''auto'' ''please tady'' False False)
   \<and> 1 - last_key_time (engine ''auto'' ''please tady'' False False) \<le> 2
   \<and> delimiter Key_space
   \<and> candidate (buffer (engine ''auto'' ''please tady'' False False)) = Some ''tady''
   \<and> shortcuts (engine ''auto'' ''please tady'' False False) ''tady''
       = Some ''Thank you very much in advance.''
   \<and> on_press (engine ''auto'' ''please tady'' False False) 1 Key_space
       = (Some False, replay ''tady'' ''Thank you very much in advance.'',
          (engine ''auto'' '''' True False)\<lparr>last_key_time := 1\<rparr>)
   \<and> length (filter (\<lambda>a. a = Press Key_backspace)
        (actions (on_press (engine ''auto'' ''please tady'' False False) 1 Key_space))) = 4
   \<and> filter is_emit
        (actions (on_press (engine ''auto'' ''please tady'' False False) 1 Key_space))
       = [Emit ''tady'' ''Thank you very much in advance.'']"
proof -
  let ?s = "engine ''auto'' ''please tady'' False False"
  have h: "is_running ?s" "mode ?s = ''auto''" "\<not> pending_expansion ?s"
    "1 - last_key_time ?s \<le> 2" "delimiter Key_space"
    "candidate (buffer ?s) = Some ''tady''"
    "shortcuts ?s ''tady'' = Some ''Thank you very much in advance.''"
    by (simp_all add: engine_fields delimiter_def candidate_please_tady snapshot_tady)
  note r = auto_match_expands [OF h]
  from r have p: "on_press ?s 1 Key_space
       = (Some False, replay ''tady'' ''Thank you very much in advance.'',
          ?s\<lparr>buffer := '''', last_key_time := 1, pending_expansion := True\<rparr>)"
    by (rule conjunct1)
  have st: "?s\<lparr>buffer := '''', last_key_time := 1, pending_expansion := True\<rparr>
      = (engine ''auto'' '''' True False)\<lparr>last_key_time := 1\<rparr>"
    by (simp add: engine_def)
  from r have n0: "length (filter (\<lambda>a. a = Press Key_backspace)
        (actions (on_press ?s 1 Key_space))) = length ''tady''"
    by blast
  have len: "length ''tady'' = 4"
    by simp
  note n = trans [OF n0 len]
  from r have e: "filter is_emit (actions (on_press ?s 1 Key_space))
       = [Emit ''tady'' ''Thank you very much in advance.'']"
    by blast
  from h p n e show ?thesis unfolding st by blast
qed

subsection \<open>Claim C2\<close>

text \<open>
  C2. One expansion, in order: for a buffer whose candidate keyword \<open>kw\<close> is mapped to
  \<open>phrase\<close>, the actions of \<open>expand_from_buffer\<close> are \<open>length kw\<close> pairs of a Backspace press
  and release (each followed by a pause), then the clipboard write, then the paste chord
  (Control pressed, \<open>v\<close> pressed and released, Control released), then the notification
  with \<open>kw\<close> and \<open>phrase\<close>. The buffer is cleared by the last statement only: after any
  proper prefix of the statements the monitor is as it was, and at the end the buffer is
  empty.
\<close>

theorem expansion_order:
  assumes "candidate (buffer s) = Some kw" and "shortcuts s kw = Some phrase"
  shows "fst (expand_from_buffer s)
      = concat (replicate (length kw) [Press Key_backspace, Release Key_backspace, Sleep 0.01])
        @ [Copy phrase, Sleep 0.05]
        @ [Press Key_ctrl, Press (KeyCode (Some ''v'')), Sleep 0.05,
           Release (KeyCode (Some ''v'')), Release Key_ctrl]
        @ [Emit kw phrase]
    \<and> expand_from_buffer s = foldl exec ([], s) (expansion_body kw phrase)
    \<and> (\<forall>i. i < length (expansion_body kw phrase) \<longrightarrow>
          snd (foldl exec ([], s) (take i (expansion_body kw phrase))) = s)
    \<and> last (expansion_body kw phrase) = Clear_buffer
    \<and> snd (expand_from_buffer s) = s\<lparr>buffer := ''''\<rparr>"
proof -
  have res: "expand_from_buffer s = (replay kw phrase, s\<lparr>buffer := ''''\<rparr>)"
    using assms by (rule expand_match)
  have prefix: "snd (foldl exec ([], s) (take i (expansion_body kw phrase))) = s"
    if "i < length (expansion_body kw phrase)" for i
  proof -
    from that have "i \<le> length (replay kw phrase)"
      by (simp add: expansion_body_replay)
    then have "take i (expansion_body kw phrase) = map Do (take i (replay kw phrase))"
      by (simp add: expansion_body_replay take_map)
    then show ?thesis by (simp add: foldl_exec_Do)
  qed
  have "fst (expand_from_buffer s)
      = concat (replicate (length kw) [Press Key_backspace, Release Key_backspace, Sleep 0.01])
        @ [Copy phrase, Sleep 0.05]
        @ [Press Key_ctrl, Press (KeyCode (Some ''v'')), Sleep 0.05,
           Release (KeyCode (Some ''v'')), Release Key_ctrl]
        @ [Emit kw phrase]"
    by (simp add: res replay_def erase_def paste_chord_def)
  moreover have "expand_from_buffer s = foldl exec ([], s) (expansion_body kw phrase)"
    by (simp add: res run_expansion_body)
  moreover have "last (expansion_body kw phrase) = Clear_buffer"
    by (simp add: expansion_body_replay)
  moreover have "snd (expand_from_buffer s) = s\<lparr>buffer := ''''\<rparr>"
    by (simp add: res)
  ultimately show ?thesis using prefix by blast
qed

theorem expansion_order_witness:
  "candidate (buffer (engine ''auto'' ''please tady'' False False)) = Some ''tady''
   \<and> shortcuts (engine ''auto'' ''please tady'' False False) ''tady''
       = Some ''Thank you very much in advance.''
   \<and> fst (expand_from_buffer (engine ''auto'' ''please tady'' False False))
       = [Press Key_backspace, Release Key_backspace, Sleep 0.01,
          Press Key_backspace, Release Key_backspace, Sleep 0.01,
          Press Key_backspace, Release Key_backspace, Sleep 0.01,
          Press Key_backspace, Release Key_backspace, Sleep 0.01,
          Copy ''Thank you very much in advance.'', Sleep 0.05,
          Press Key_ctrl, Press (KeyCode (Some ''v'')), Sleep 0.05,
          Release (KeyCode (Some ''v'')), Release Key_ctrl,
          Emit ''tady'' ''Thank you very much in advance.'']
   \<and> snd (expand_from_buffer (engine ''auto'' ''please tady'' False False))
       = engine ''auto'' '''' False False"
proof -
  have c: "candidate (buffer (engine ''auto'' ''please tady'' False False)) = Some ''tady''"
    by (simp add: engine_fields candidate_please_tady)
  have m: "shortcuts (engine ''auto'' ''please tady'' False False) ''tady''
       = Some ''Thank you very much in advance.''"
    by (simp add: engine_fields snapshot_tady)
  have four: "replicate (length ''tady'') x = [x, x, x, x]" for x :: "action list"
    by (simp add: numeral_eq_Suc)
  note e = expansion_order [OF c m]
  from e have a: "fst (expand_from_buffer (engine ''auto'' ''please tady'' False False))
      = concat (replicate (length ''tady'') [Press Key_backspace, Release Key_backspace, Sleep 0.01])
        @ [Copy ''Thank you very much in advance.'', Sleep 0.05]
        @ [Press Key_ctrl, Press (KeyCode (Some ''v'')), Sleep 0.05,
           Release (KeyCode (Some ''v'')), Release Key_ctrl]
        @ [Emit ''tady'' ''Thank you very much in advance.'']"
    by (rule conjunct1)
  from e have b: "snd (expand_from_buffer (engine ''auto'' ''please tady'' False False))
      = (engine ''auto'' ''please tady'' False False)\<lparr>buffer := ''''\<rparr>"
    by blast
  show ?thesis unfolding a b using c m
    by (simp add: four engine_def)
qed

subsection \<open>Claim C3\<close>

text \<open>
  C3. From any state of a running monitor with the pending flag set: the presses and
  releases that come before the next delimiter leave the flag set; the next press of Space,
  Enter or Tab is answered with \<open>False\<close> (suppressed), takes no action and clears the flag;
  the flag then stays clear until the following delimiter, which is therefore not consumed
  by the flag: it is handled by the ordinary rule (\<open>handle_key\<close>), and is suppressed only
  if the rule of auto mode finds a match.
\<close>

theorem pending_suppresses_one_delimiter:
  assumes "is_running s" and "pending_expansion s"
    and "\<forall>e\<in>set evs1. \<not> delimiter_press e" and "delimiter d1"
    and "\<forall>e\<in>set evs2. \<not> delimiter_press e" and "delimiter d2"
  shows "pending_expansion (feed s evs1)
    \<and> on_press (feed s evs1) t1 d1
        = (Some False, [], (feed s evs1)\<lparr>pending_expansion := False\<rparr>)
    \<and> \<not> pending_expansion (feed s (evs1 @ [Pressed t1 d1] @ evs2))
    \<and> on_press (feed s (evs1 @ [Pressed t1 d1] @ evs2)) t2 d2
        = handle_key (feed s (evs1 @ [Pressed t1 d1] @ evs2)) t2 d2
    \<and> (answer (on_press (feed s (evs1 @ [Pressed t1 d1] @ evs2)) t2 d2) = Some False
        \<longleftrightarrow> mode s = ''auto''
          \<and> check_for_expansion (idle_reset (feed s (evs1 @ [Pressed t1 d1] @ evs2)) t2))"
proof -
  let ?s1 = "feed s evs1"
  let ?s2 = "feed s (evs1 @ [Pressed t1 d1])"
  let ?s3 = "feed s (evs1 @ [Pressed t1 d1] @ evs2)"
  have run1: "is_running ?s1" and run3: "is_running ?s3"
    using assms(1) by (simp_all add: feed_fields)
  have p1: "pending_expansion ?s1"
    using assms(2,3) by (simp add: feed_pending)
  have first: "on_press ?s1 t1 d1 = (Some False, [], ?s1\<lparr>pending_expansion := False\<rparr>)"
    using run1 p1 assms(4) by (simp add: on_press_def)
  then have "?s2 = ?s1\<lparr>pending_expansion := False\<rparr>"
    by (simp add: feed_append feed_Cons feed_Nil)
  then have p2: "\<not> pending_expansion ?s2"
    by simp
  have s3: "?s3 = feed ?s2 evs2"
    by (simp add: feed_def)
  have p3: "\<not> pending_expansion ?s3"
    unfolding s3 using p2 assms(5) by (simp add: feed_pending)
  have second: "on_press ?s3 t2 d2 = handle_key ?s3 t2 d2"
    using run3 p3 by (simp add: on_press_def)
  have "answer (on_press ?s3 t2 d2) = Some False
      \<longleftrightarrow> mode s = ''auto'' \<and> check_for_expansion (idle_reset ?s3 t2)"
    unfolding second handle_key_def
    using assms(6) by (simp add: dispatch_delimiter_answer idle_reset_fields feed_fields)
  with p1 first p3 second show ?thesis
    by blast
qed

theorem pending_suppresses_one_delimiter_witness:
  "is_running (engine ''auto'' '''' True False)
   \<and> pending_expansion (engine ''auto'' '''' True False)
   \<and> \<not> delimiter_press (Pressed 1 (KeyCode (Some ''a'')))
   \<and> delimiter Key_space
   \<and> \<not> delimiter_press (Released Key_space)
   \<and> delimiter Key_enter
   \<and> on_press (feed (engine ''auto'' '''' True False) [Pressed 1 (KeyCode (Some ''a''))]) 2 Key_space
       = (Some False, [], (engine ''auto'' ''a'' False False)\<lparr>last_key_time := 1\<rparr>)
   \<and> on_press (feed (engine ''auto'' '''' True False)
         ([Pressed 1 (KeyCode (Some ''a''))] @ [Pressed 2 Key_space] @ [Released Key_space]))
         3 Key_enter
       = handle_key (feed (engine ''auto'' '''' True False)
           ([Pressed 1 (KeyCode (Some ''a''))] @ [Pressed 2 Key_space] @ [Released Key_space]))
           3 Key_enter
   \<and> answer (on_press (feed (engine ''auto'' '''' True False)
         ([Pressed 1 (KeyCode (Some ''a''))] @ [Pressed 2 Key_space] @ [Released Key_space]))
         3 Key_enter) = None"
proof -
  let ?s = "engine ''auto'' '''' True False"
  let ?evs1 = "[Pressed 1 (KeyCode (Some ''a''))]"
  let ?evs2 = "[Released Key_space]"
  have h: "is_running ?s" "pending_expansion ?s"
    "\<forall>e\<in>set ?evs1. \<not> delimiter_press e" "delimiter Key_space"
    "\<forall>e\<in>set ?evs2. \<not> delimiter_press e" "delimiter Key_enter"
    by (simp_all add: engine_fields delimiter_def)
  have f1: "feed ?s ?evs1 = (engine ''auto'' ''a'' True False)\<lparr>last_key_time := 1\<rparr>"
    by (simp add: feed_def engine_def on_press_def handle_key_def dispatch_def auto_mode_def
        idle_reset_def delimiter_def)
  have f3: "feed ?s (?evs1 @ [Pressed 2 Key_space] @ ?evs2)
      = (engine ''auto'' ''a'' False False)\<lparr>last_key_time := 1\<rparr>"
    by (simp add: feed_def engine_def on_press_def handle_key_def dispatch_def auto_mode_def
        idle_reset_def delimiter_def on_release_def)
  note r = pending_suppresses_one_delimiter [OF h, of 2 3]
  from r have a: "on_press (feed ?s ?evs1) 2 Key_space
      = (Some False, [], (feed ?s ?evs1)\<lparr>pending_expansion := False\<rparr>)"
    by blast
  have a': "(feed ?s ?evs1)\<lparr>pending_expansion := False\<rparr>
      = (engine ''auto'' ''a'' False False)\<lparr>last_key_time := 1\<rparr>"
    unfolding f1 by (simp add: engine_def)
  from r have b: "on_press (feed ?s (?evs1 @ [Pressed 2 Key_space] @ ?evs2)) 3 Key_enter
      = handle_key (feed ?s (?evs1 @ [Pressed 2 Key_space] @ ?evs2)) 3 Key_enter"
    by blast
  have c: "answer (on_press (feed ?s (?evs1 @ [Pressed 2 Key_space] @ ?evs2)) 3 Key_enter) = None"
    unfolding f3
    by (simp add: on_press_def handle_key_def dispatch_def auto_mode_def delimiter_def
        engine_def idle_reset_def check_for_expansion_def string_eval snapshot_def)
  have d: "\<not> delimiter_press (Pressed 1 (KeyCode (Some ''a'')))" "\<not> delimiter_press (Released Key_space)"
    by (simp_all add: delimiter_def)
  from h(1,2,4,6) d a [unfolded a'] b c show ?thesis
    by blast
qed

subsection \<open>Claim C4\<close>



subsection \<open>Claim C5\<close>

text \<open>
  C5, as stated, does not hold for every state of the monitor in auto mode whose buffer
  ends in an unknown token: with the pending flag set, Enter is consumed by the flag, so it
  is suppressed, and the buffer is not cleared. The flag is set after every expansion: when
  \<open>x\<close> is typed after the expansion of \<open>tady\<close>, the next Enter is suppressed and \<open>x\<close> stays
  in the buffer.
\<close>

theorem auto_no_match_counterexample:
  "candidate (buffer (engine ''auto'' ''hello world'' True False)) = Some ''world''
   \<and> shortcuts (engine ''auto'' ''hello world'' True False) ''world'' = None
   \<and> on_press (engine ''auto'' ''hello world'' True False) 1 Key_enter
       = (Some False, [], engine ''auto'' ''hello world'' False False)
   \<and> feed (engine ''auto'' ''tady'' False False)
        [Pressed 1 Key_space, Pressed 1 (KeyCode (Some ''x''))]
       = (engine ''auto'' ''x'' True False)\<lparr>last_key_time := 1\<rparr>
   \<and> candidate (buffer ((engine ''auto'' ''x'' True False)\<lparr>last_key_time := 1\<rparr>)) = Some ''x''
   \<and> shortcuts ((engine ''auto'' ''x'' True False)\<lparr>last_key_time := 1\<rparr>) ''x'' = None
   \<and> on_press ((engine ''auto'' ''x'' True False)\<lparr>last_key_time := 1\<rparr>) 2 Key_enter
       = (Some False, [], (engine ''auto'' ''x'' False False)\<lparr>last_key_time := 1\<rparr>)"
proof -
  let ?s = "engine ''auto'' ''tady'' False False"
  let ?p = "(engine ''auto'' ''x'' True False)\<lparr>last_key_time := 1\<rparr>"
  have a: "candidate (buffer (engine ''auto'' ''hello world'' True False)) = Some ''world''"
    "shortcuts (engine ''auto'' ''hello world'' True False) ''world'' = None"
    by (simp_all add: engine_fields candidate_hello_world snapshot_world)
  have b: "on_press (engine ''auto'' ''hello world'' True False) 1 Key_enter
      = (Some False, [], engine ''auto'' ''hello world'' False False)"
    by (simp add: engine_def on_press_def delimiter_def)
  have "on_press ?s 1 Key_space =
      (Some False, replay ''tady'' ''Thank you very much in advance.'',
       ?s\<lparr>buffer := '''', last_key_time := 1, pending_expansion := True\<rparr>)"
    by (rule auto_match_step)
      (simp_all add: engine_fields delimiter_def candidate_tady snapshot_tady)
  then have "step ?s (Pressed 1 Key_space)
      = (engine ''auto'' '''' True False)\<lparr>last_key_time := 1\<rparr>"
    by (simp add: engine_def)
  moreover have "feed ((engine ''auto'' '''' True False)\<lparr>last_key_time := 1\<rparr>)
      [Pressed 1 (KeyCode (Some ''x''))] = ?p"
    by (simp add: feed_def engine_def press_eval)
  ultimately have c: "feed ?s [Pressed 1 Key_space, Pressed 1 (KeyCode (Some ''x''))] = ?p"
    by (simp only: feed_Cons)
  have d: "candidate (buffer ?p) = Some ''x''" "shortcuts ?p ''x'' = None"
    by (simp_all add: engine_def candidate_def string_eval snapshot_def)
  have e: "on_press ?p 2 Key_enter
      = (Some False, [], (engine ''auto'' ''x'' False False)\<lparr>last_key_time := 1\<rparr>)"
    by (simp add: engine_def on_press_def delimiter_def)
  from a b c d e show ?thesis by blast
qed

text \<open>
  C5, amended. In auto mode, for a running monitor with no expansion pending, whose
  buffer has no token or a last token that, lower-cased, is not a key of the shortcuts, a
  press of Space, Enter or Tab clears the buffer and is not suppressed (the answer is
  \<open>None\<close>); there is no action at all, so no Backspace, no clipboard write, no paste and no
  notification. Nothing else changes but the time of the last press.
\<close>

theorem auto_no_match_forwards:
  assumes "is_running s" and "mode s = ''auto''" and "\<not> pending_expansion s"
    and "delimiter k"
    and "candidate (buffer s) = None \<or> (\<exists>kw. candidate (buffer s) = Some kw \<and> shortcuts s kw = None)"
  shows "on_press s t k = (None, [], s\<lparr>buffer := '''', last_key_time := t\<rparr>)"
proof -
  from assms(5) have "\<not> check_for_expansion s"
    by (auto simp: check_candidate)
  then have "\<not> check_for_expansion (idle_reset s t)"
    by (rule idle_reset_check)
  with auto_delimiter [OF assms(1-4), of t] show ?thesis
    by (simp add: idle_reset_def)
qed

theorem auto_no_match_forwards_witness:
  "is_running (engine ''auto'' ''hello world'' False False)
   \<and> mode (engine ''auto'' ''hello world'' False False) = ''auto''
   \<and> \<not> pending_expansion (engine ''auto'' ''hello world'' False False)
   \<and> delimiter Key_enter
   \<and> candidate (buffer (engine ''auto'' ''hello world'' False False)) = Some ''world''
   \<and> shortcuts (engine ''auto'' ''hello world'' False False) ''world'' = None
   \<and> on_press (engine ''auto'' ''hello world'' False False) 1 Key_enter
       = (None, [], (engine ''auto'' '''' False False)\<lparr>last_key_time := 1\<rparr>)
   \<and> candidate (buffer (engine ''auto'' ''  '' False False)) = None
   \<and> on_press (engine ''auto'' ''  '' False False) 1 Key_enter
       = (None, [], (engine ''auto'' '''' False False)\<lparr>last_key_time := 1\<rparr>)"
proof -
  let ?s = "engine ''auto'' ''hello world'' False False"
  let ?u = "engine ''auto'' ''  '' False False"
  have h: "is_running ?s" "mode ?s = ''auto''" "\<not> pending_expansion ?s" "delimiter Key_enter"
    by (simp_all add: engine_fields delimiter_def)
  have c: "candidate (buffer ?s) = Some ''world''" "shortcuts ?s ''world'' = None"
    by (simp_all add: engine_fields candidate_hello_world snapshot_world)
  then have d: "candidate (buffer ?s) = None
      \<or> (\<exists>kw. candidate (buffer ?s) = Some kw \<and> shortcuts ?s kw = None)"
    by blast
  have st: "?s\<lparr>buffer := '''', last_key_time := 1\<rparr>
      = (engine ''auto'' '''' False False)\<lparr>last_key_time := 1\<rparr>"
    by (simp add: engine_def)
  have hu: "is_running ?u" "mode ?u = ''auto''" "\<not> pending_expansion ?u"
    by (simp_all add: engine_fields)
  have cu: "candidate (buffer ?u) = None"
    by (simp add: engine_fields candidate_def string_eval)
  then have du: "candidate (buffer ?u) = None
      \<or> (\<exists>kw. candidate (buffer ?u) = Some kw \<and> shortcuts ?u kw = None)"
    by blast
  have stu: "?u\<lparr>buffer := '''', last_key_time := 1\<rparr>
      = (engine ''auto'' '''' False False)\<lparr>last_key_time := 1\<rparr>"
    by (simp add: engine_def)
  from auto_no_match_forwards [OF h d, of 1] auto_no_match_forwards [OF hu h(4) du, of 1]
    h c cu show ?thesis
    unfolding st stu by blast
qed

subsection \<open>Claim C6\<close>

text \<open>
  C6. Take a running monitor in hotkey or auto mode with an empty buffer, and any sequence
  of events in which every press is a character key or Backspace (no delimiter, no other
  key) and no press comes more than two seconds after the press before it. Then the buffer
  is the text typed: each character appended in order, each Backspace dropping the last
  character if there is one and doing nothing on an empty buffer. In particular, when only
  characters are pressed the buffer is their concatenation, and one more Backspace within
  two seconds removes exactly the last character of a non-empty buffer and leaves an
  empty buffer empty.
\<close>

theorem typing_builds_buffer:
  assumes "is_running s" and "mode s = ''hotkey'' \<or> mode s = ''auto''" and "buffer s = ''''"
    and "\<forall>k\<in>set (pressed_keys evs). typing_key k" and "gaps_ok (press_times evs)"
  shows "buffer (feed s evs) = foldl type_key '''' (pressed_keys evs)
    \<and> (\<forall>cs. pressed_keys evs = map (\<lambda>c. KeyCode (Some c)) cs \<longrightarrow>
          buffer (feed s evs) = concat cs)
    \<and> (\<forall>t. gaps_ok (press_times (evs @ [Pressed t Key_backspace])) \<longrightarrow>
          buffer (feed s (evs @ [Pressed t Key_backspace])) = butlast (buffer (feed s evs))
          \<and> (buffer (feed s evs) = '''' \<longrightarrow>
                buffer (feed s (evs @ [Pressed t Key_backspace])) = '''')
          \<and> (\<forall>b c. buffer (feed s evs) = b @ [c] \<longrightarrow>
                buffer (feed s (evs @ [Pressed t Key_backspace])) = b))"
proof -
  have main: "buffer (feed s evs) = foldl type_key '''' (pressed_keys evs)"
    using assms by (rule typing_feed_empty)
  have chars: "buffer (feed s evs) = concat cs"
    if "pressed_keys evs = map (\<lambda>c. KeyCode (Some c)) cs" for cs
    using that by (simp add: main foldl_type_key_chars)
  have erased: "buffer (feed s (evs @ [Pressed t Key_backspace])) = butlast (buffer (feed s evs))"
    if "gaps_ok (press_times (evs @ [Pressed t Key_backspace]))" for t
  proof -
    have "\<forall>k\<in>set (pressed_keys (evs @ [Pressed t Key_backspace])). typing_key k"
      using assms(4) by (simp add: pressed_keys_snoc)
    with assms(1,2,3) have "buffer (feed s (evs @ [Pressed t Key_backspace]))
        = foldl type_key '''' (pressed_keys (evs @ [Pressed t Key_backspace]))"
      using that by (intro typing_feed_empty)
    then show ?thesis
      by (simp add: pressed_keys_snoc main)
  qed
  have "buffer (feed s (evs @ [Pressed t Key_backspace])) = butlast (buffer (feed s evs))
      \<and> (buffer (feed s evs) = '''' \<longrightarrow> buffer (feed s (evs @ [Pressed t Key_backspace])) = '''')
      \<and> (\<forall>b c. buffer (feed s evs) = b @ [c] \<longrightarrow>
            buffer (feed s (evs @ [Pressed t Key_backspace])) = b)"
    if "gaps_ok (press_times (evs @ [Pressed t Key_backspace]))" for t
    using erased [OF that] by simp
  with main chars show ?thesis by blast
qed

theorem typing_builds_buffer_witness:
  "is_running (engine ''auto'' '''' False False)
   \<and> mode (engine ''auto'' '''' False False) = ''auto''
   \<and> buffer (engine ''auto'' '''' False False) = ''''
   \<and> pressed_keys typed_tady = map (\<lambda>c. KeyCode (Some c)) [''t'', ''a'', ''d'', ''y'']
   \<and> gaps_ok (press_times (typed_tady @ [Pressed 2 Key_backspace]))
   \<and> buffer (feed (engine ''auto'' '''' False False) typed_tady) = ''tady''
   \<and> buffer (feed (engine ''auto'' '''' False False) (typed_tady @ [Pressed 2 Key_backspace]))
       = ''tad''"
proof -
  let ?s = "engine ''auto'' '''' False False"
  have keys: "pressed_keys typed_tady = map (\<lambda>c. KeyCode (Some c)) [''t'', ''a'', ''d'', ''y'']"
    by (simp add: typed_tady_def)
  have h: "is_running ?s" "mode ?s = ''hotkey'' \<or> mode ?s = ''auto''" "buffer ?s = ''''"
    "\<forall>k\<in>set (pressed_keys typed_tady). typing_key k" "gaps_ok (press_times typed_tady)"
    by (simp_all add: engine_fields keys) (simp add: typed_tady_def)
  have g: "gaps_ok (press_times (typed_tady @ [Pressed 2 Key_backspace]))"
    by (simp add: typed_tady_def)
  note r = typing_builds_buffer [OF h]
  from r keys have a: "buffer (feed ?s typed_tady) = concat [''t'', ''a'', ''d'', ''y'']"
    by blast
  from r g have "buffer (feed ?s (typed_tady @ [Pressed 2 Key_backspace]))
      = butlast (buffer (feed ?s typed_tady))"
    by blast
  then have b: "buffer (feed ?s (typed_tady @ [Pressed 2 Key_backspace])) = ''tad''"
    by (simp add: a)
  have a': "buffer (feed ?s typed_tady) = ''tady''"
    by (simp add: a)
  have m: "mode ?s = ''auto''"
    by (simp add: engine_fields)
  from h(1,3) m keys g a' b show ?thesis by blast
qed

subsection \<open>Claim C7\<close>

text \<open>
  C7. Idle reset. Take two consecutive presses that a running monitor processes, that is,
  that get past the pending flag (only such a press reads the clock), at times \<open>t1\<close> and
  \<open>t2\<close>. After the first, the time of the last press is \<open>t1\<close>. The second is then handled
  by the tracking of Control and the rule of the mode on a state whose buffer is empty if
  \<open>t2 - t1 > 2\<close> and is the buffer left by the first press otherwise. So a character that
  comes more than two seconds later ends up alone in the buffer, and one that comes within
  two seconds is appended to what was there.
\<close>

theorem idle_reset_between_presses:
  assumes "is_running s"
    and "\<not> (pending_expansion s \<and> delimiter k1)"
    and "\<not> (pending_expansion (after (on_press s t1 k1)) \<and> delimiter k2)"
  shows "last_key_time (after (on_press s t1 k1)) = t1
    \<and> on_press (after (on_press s t1 k1)) t2 k2
        = dispatch ((after (on_press s t1 k1))
            \<lparr>buffer := (if t2 - t1 > 2 then '''' else buffer (after (on_press s t1 k1))),
             last_key_time := t2\<rparr>) k2
    \<and> (\<forall>c. key_char k2 = Some c \<and> (mode s = ''hotkey'' \<or> mode s = ''auto'') \<longrightarrow>
          buffer (after (on_press (after (on_press s t1 k1)) t2 k2))
            = (if t2 - t1 > 2 then c else buffer (after (on_press s t1 k1)) @ c))"
proof -
  let ?s1 = "after (on_press s t1 k1)"
  let ?s2 = "?s1\<lparr>buffer := (if t2 - t1 > 2 then '''' else buffer ?s1), last_key_time := t2\<rparr>"
  have t: "last_key_time ?s1 = t1"
    using assms(1,2) by (rule on_press_last_key_time)
  have run1: "is_running ?s1"
    using assms(1) by (simp add: on_press_fields)
  have i: "idle_reset ?s1 t2 = ?s2"
    by (simp add: idle_reset_def t)
  have p: "on_press ?s1 t2 k2 = dispatch ?s2 k2"
    using on_press_processed [OF run1 assms(3), of t2] by (simp only: i)
  have "buffer (after (on_press ?s1 t2 k2))
      = (if t2 - t1 > 2 then c else buffer ?s1 @ c)"
    if c: "key_char k2 = Some c" and m: "mode s = ''hotkey'' \<or> mode s = ''auto''" for c
  proof -
    from c have k: "k2 \<noteq> Key_ctrl_l" "k2 \<noteq> Key_ctrl_r" "k2 \<noteq> Key_space"
      by auto
    have "mode ?s2 = mode s"
      by (simp add: on_press_fields)
    with m k c show ?thesis
      unfolding p by (auto simp: dispatch_def hotkey_mode_def auto_mode_def)
  qed
  with t p show ?thesis by blast
qed

theorem idle_reset_between_presses_witness:
  "is_running (engine ''hotkey'' ''ab'' False False)
   \<and> \<not> (pending_expansion (engine ''hotkey'' ''ab'' False False)
        \<and> delimiter (KeyCode (Some ''c'')))
   \<and> \<not> (pending_expansion
          (after (on_press (engine ''hotkey'' ''ab'' False False) 1 (KeyCode (Some ''c''))))
        \<and> delimiter (KeyCode (Some ''d'')))
   \<and> after (on_press (engine ''hotkey'' ''ab'' False False) 1 (KeyCode (Some ''c'')))
       = (engine ''hotkey'' ''abc'' False False)\<lparr>last_key_time := 1\<rparr>
   \<and> key_char (KeyCode (Some ''d'')) = Some ''d''
   \<and> buffer (after (on_press
        (after (on_press (engine ''hotkey'' ''ab'' False False) 1 (KeyCode (Some ''c''))))
        3.1 (KeyCode (Some ''d'')))) = ''d''
   \<and> buffer (after (on_press
        (after (on_press (engine ''hotkey'' ''ab'' False False) 1 (KeyCode (Some ''c''))))
        3 (KeyCode (Some ''d'')))) = ''abcd''"
proof -
  let ?s = "engine ''hotkey'' ''ab'' False False"
  let ?s1 = "after (on_press ?s 1 (KeyCode (Some ''c'')))"
  have s1: "?s1 = (engine ''hotkey'' ''abc'' False False)\<lparr>last_key_time := 1\<rparr>"
    by (simp add: engine_def on_press_def handle_key_def dispatch_def hotkey_mode_def
        idle_reset_def)
  have h: "is_running ?s" "\<not> (pending_expansion ?s \<and> delimiter (KeyCode (Some ''c'')))"
    "\<not> (pending_expansion ?s1 \<and> delimiter (KeyCode (Some ''d'')))"
    by (simp_all add: engine_fields delimiter_def)
  have k: "key_char (KeyCode (Some ''d'')) = Some ''d''" "mode ?s = ''hotkey''"
    by (simp_all add: engine_fields)
  have far: "(3.1::real) - 1 > 2" and near: "\<not> (3::real) - 1 > 2"
    by simp_all
  from idle_reset_between_presses [OF h, of "3.1"] k
  have "buffer (after (on_press ?s1 3.1 (KeyCode (Some ''d''))))
      = (if (3.1::real) - 1 > 2 then ''d'' else buffer ?s1 @ ''d'')"
    by blast
  with far have a: "buffer (after (on_press ?s1 3.1 (KeyCode (Some ''d'')))) = ''d''"
    by (simp only: if_True)
  from idle_reset_between_presses [OF h, of 3] k
  have "buffer (after (on_press ?s1 3 (KeyCode (Some ''d''))))
      = (if (3::real) - 1 > 2 then ''d'' else buffer ?s1 @ ''d'')"
    by blast
  with near have "buffer (after (on_press ?s1 3 (KeyCode (Some ''d'')))) = buffer ?s1 @ ''d''"
    by (simp only: if_False)
  moreover have "buffer ?s1 = ''abc''"
    unfolding s1 by (simp add: engine_def)
  ultimately have b: "buffer (after (on_press ?s1 3 (KeyCode (Some ''d'')))) = ''abcd''"
    by (simp only: append.simps)
  from h k s1 a b show ?thesis by blast
qed

subsection \<open>Claim C8\<close>



subsection \<open>Claim C9\<close>

text \<open>
  C9. When a pending delimiter is consumed, that is, the monitor is running, the pending
  flag is set and Space, Enter or Tab is pressed, the press is answered with \<open>False\<close>, no
  action is taken, and the only field that changes is the pending flag, which becomes
  false: the buffer, the control flag and the time of the last press stay as they are, so
  the suppressed delimiter does not refresh the idle timer.
\<close>

theorem pending_delimiter_frame:
  assumes "is_running s" and "pending_expansion s" and "delimiter k"
  shows "on_press s t k = (Some False, [], s\<lparr>pending_expansion := False\<rparr>)
    \<and> buffer (after (on_press s t k)) = buffer s
    \<and> ctrl_pressed (after (on_press s t k)) = ctrl_pressed s
    \<and> last_key_time (after (on_press s t k)) = last_key_time s
    \<and> \<not> pending_expansion (after (on_press s t k))"
  using assms by (simp add: on_press_def)

theorem pending_delimiter_frame_witness:
  "is_running (engine ''auto'' ''abc'' True True)
   \<and> pending_expansion (engine ''auto'' ''abc'' True True)
   \<and> delimiter Key_enter
   \<and> on_press (engine ''auto'' ''abc'' True True) 7 Key_enter
       = (Some False, [], engine ''auto'' ''abc'' False True)
   \<and> last_key_time (after (on_press (engine ''auto'' ''abc'' True True) 7 Key_enter)) = 0"
  using pending_delimiter_frame [of "engine ''auto'' ''abc'' True True" Key_enter 7]
  by (simp add: engine_def delimiter_def)

subsection \<open>Claim C10\<close>

text \<open>
  C10, as stated, fails in its last part: in auto mode a suppressed delimiter does not
  always go with an expansion. After the expansion of \<open>tady\<close> the pending flag is set, and
  the next Space is suppressed by the flag although the buffer is empty, nothing matches
  and no action is taken.
\<close>

theorem suppressed_without_expansion_counterexample:
  "feed (engine ''auto'' ''tady'' False False) [Pressed 1 Key_space]
     = (engine ''auto'' '''' True False)\<lparr>last_key_time := 1\<rparr>
   \<and> mode (feed (engine ''auto'' ''tady'' False False) [Pressed 1 Key_space]) = ''auto''
   \<and> \<not> check_for_expansion (feed (engine ''auto'' ''tady'' False False) [Pressed 1 Key_space])
   \<and> on_press (feed (engine ''auto'' ''tady'' False False) [Pressed 1 Key_space]) 2 Key_space
       = (Some False, [], (engine ''auto'' '''' False False)\<lparr>last_key_time := 1\<rparr>)"
proof -
  let ?s = "engine ''auto'' ''tady'' False False"
  have h: "is_running ?s" "mode ?s = ''auto''" "\<not> pending_expansion ?s"
    "1 - last_key_time ?s \<le> 2" "delimiter Key_space"
    "candidate (buffer ?s) = Some ''tady''"
    "shortcuts ?s ''tady'' = Some ''Thank you very much in advance.''"
    by (simp_all add: engine_fields delimiter_def candidate_tady snapshot_tady)
  have "on_press ?s 1 Key_space =
      (Some False, replay ''tady'' ''Thank you very much in advance.'',
       ?s\<lparr>buffer := '''', last_key_time := 1, pending_expansion := True\<rparr>)"
    using h by (rule auto_match_step)
  then have f: "feed ?s [Pressed 1 Key_space]
      = (engine ''auto'' '''' True False)\<lparr>last_key_time := 1\<rparr>"
    by (simp add: feed_def engine_def)
  show ?thesis unfolding f
    by (simp add: engine_def on_press_def delimiter_def check_candidate candidate_empty)
qed

text \<open>
  C10, amended. For every state of the monitor, \<open>check_for_expansion\<close> is true exactly
  when \<open>expand_from_buffer\<close> on that state performs an expansion, that is, emits the replay
  of a keyword (which is not empty, so there is at least one Backspace) and its phrase, and
  clears the buffer; it is false exactly when \<open>expand_from_buffer\<close> does nothing. So in auto
  mode a delimiter that the pending flag does not consume (the monitor is running and the
  flag is not set) is suppressed exactly when an expansion is performed in that call, never
  on a silent no-op. A delimiter that the flag consumes is suppressed with no action.
\<close>

theorem check_agrees_with_expansion:
  "(check_for_expansion s \<longleftrightarrow>
      (\<exists>kw phrase. kw \<noteq> [] \<and> candidate (buffer s) = Some kw \<and> shortcuts s kw = Some phrase
         \<and> expand_from_buffer s = (replay kw phrase, s\<lparr>buffer := ''''\<rparr>)))
   \<and> (\<not> check_for_expansion s \<longleftrightarrow> expand_from_buffer s = ([], s))
   \<and> (is_running s \<and> mode s = ''auto'' \<and> \<not> pending_expansion s \<and> delimiter k \<longrightarrow>
        (answer (on_press s t k) = Some False \<longleftrightarrow>
           (\<exists>kw phrase. actions (on_press s t k) = replay kw phrase
              \<and> buffer (after (on_press s t k)) = ''''))
        \<and> (answer (on_press s t k) = Some False \<longleftrightarrow> actions (on_press s t k) \<noteq> []))
   \<and> (is_running s \<and> pending_expansion s \<and> delimiter k \<longrightarrow>
        answer (on_press s t k) = Some False \<and> actions (on_press s t k) = [])"
proof -
  have A: "check_for_expansion s \<longleftrightarrow>
      (\<exists>kw phrase. kw \<noteq> [] \<and> candidate (buffer s) = Some kw \<and> shortcuts s kw = Some phrase
         \<and> expand_from_buffer s = (replay kw phrase, s\<lparr>buffer := ''''\<rparr>))"
  proof
    assume "check_for_expansion s"
    then obtain kw phrase where "candidate (buffer s) = Some kw" "shortcuts s kw = Some phrase"
      by (auto simp: check_candidate)
    then show "\<exists>kw phrase. kw \<noteq> [] \<and> candidate (buffer s) = Some kw
        \<and> shortcuts s kw = Some phrase
        \<and> expand_from_buffer s = (replay kw phrase, s\<lparr>buffer := ''''\<rparr>)"
      using candidate_nonempty expand_match by blast
  next
    assume "\<exists>kw phrase. kw \<noteq> [] \<and> candidate (buffer s) = Some kw
        \<and> shortcuts s kw = Some phrase
        \<and> expand_from_buffer s = (replay kw phrase, s\<lparr>buffer := ''''\<rparr>)"
    then show "check_for_expansion s"
      by (auto simp: check_candidate)
  qed
  have B: "\<not> check_for_expansion s \<longleftrightarrow> expand_from_buffer s = ([], s)"
  proof (cases s rule: expand_cases)
    case idle
    then show ?thesis by simp
  next
    case (match kw phrase)
    then show ?thesis by (simp add: replay_nonempty)
  qed
  have C: "(answer (on_press s t k) = Some False \<longleftrightarrow>
           (\<exists>kw phrase. actions (on_press s t k) = replay kw phrase
              \<and> buffer (after (on_press s t k)) = ''''))
        \<and> (answer (on_press s t k) = Some False \<longleftrightarrow> actions (on_press s t k) \<noteq> [])"
    if h: "is_running s" "mode s = ''auto''" "\<not> pending_expansion s" "delimiter k"
  proof (cases "idle_reset s t" rule: expand_cases)
    case idle
    then have "on_press s t k = (None, [], (idle_reset s t)\<lparr>buffer := ''''\<rparr>)"
      by (simp add: auto_delimiter [OF h])
    then show ?thesis by (simp add: replay_nonempty')
  next
    case (match kw phrase)
    then have "on_press s t k = (Some False, replay kw phrase,
        (idle_reset s t)\<lparr>pending_expansion := True, buffer := ''''\<rparr>)"
      by (simp add: auto_delimiter [OF h])
    then show ?thesis by (auto simp: replay_nonempty)
  qed
  have D: "answer (on_press s t k) = Some False \<and> actions (on_press s t k) = []"
    if "is_running s" "pending_expansion s" "delimiter k"
    using that by (simp add: on_press_def)
  from A B C D show ?thesis by blast
qed

theorem check_agrees_with_expansion_witness:
  "is_running (engine ''auto'' ''please tady'' False False)
   \<and> mode (engine ''auto'' ''please tady'' False False) = ''auto''
   \<and> \<not> pending_expansion (engine ''auto'' ''please tady'' False False)
   \<and> delimiter Key_tab
   \<and> check_for_expansion (engine ''auto'' ''please tady'' False False)
   \<and> answer (on_press (engine ''auto'' ''please tady'' False False) 1 Key_tab) = Some False
   \<and> actions (on_press (engine ''auto'' ''please tady'' False False) 1 Key_tab) \<noteq> []"
proof -
  let ?s = "engine ''auto'' ''please tady'' False False"
  have h: "is_running ?s \<and> mode ?s = ''auto'' \<and> \<not> pending_expansion ?s \<and> delimiter Key_tab"
    by (simp add: engine_fields delimiter_def)
  have c: "check_for_expansion ?s"
    by (simp add: check_candidate engine_fields candidate_please_tady tady_in_snapshot)
  have "on_press ?s 1 Key_tab =
      (Some False, replay ''tady'' ''Thank you very much in advance.'',
       ?s\<lparr>buffer := '''', last_key_time := 1, pending_expansion := True\<rparr>)"
    by (rule auto_match_step)
      (simp_all add: engine_fields delimiter_def candidate_please_tady snapshot_tady)
  then have r: "answer (on_press ?s 1 Key_tab) = Some False"
    by simp
  from check_agrees_with_expansion [of ?s Key_tab 1] h r
  have "actions (on_press ?s 1 Key_tab) \<noteq> []"
    by blast
  with h c r show ?thesis by blast
qed

end
